theory Spec2Isabelle
  imports Complex_Main
begin

section \<open>Track segmentation (Australian GP/Qualifying/track_breakdown/main.py)\<close>

text \<open>
  The script works on two parallel coordinate arrays \<open>track_x\<close>, \<open>track_y\<close>; a track is
  modelled as the list of the points \<open>(track_x[i], track_y[i])\<close>. Coordinates, lengths
  and speeds are floating-point numbers in the script and real numbers here.
\<close>

type_synonym point = "real \<times> real"

text \<open>\<open>def distance(x1, y1, x2, y2): return np.sqrt((x2 - x1)**2 + (y2 - y1)**2)\<close>\<close>

definition distance :: "real \<Rightarrow> real \<Rightarrow> real \<Rightarrow> real \<Rightarrow> real" where
  "distance x1 y1 x2 y2 = sqrt ((x2 - x1)\<^sup>2 + (y2 - y1)\<^sup>2)"

text \<open>
  \<open>track_length = 0; for i in range(1, len(track_x)): track_length += distance(...)\<close>,
  with the accumulator as an argument.
\<close>

fun track_length_loop :: "point list \<Rightarrow> real \<Rightarrow> real" where
  "track_length_loop (pt1 # pt2 # ps) acc =
     track_length_loop (pt2 # ps) (acc + distance (fst pt1) (snd pt1) (fst pt2) (snd pt2))"
| "track_length_loop _ acc = acc"

definition track_length :: "point list \<Rightarrow> real" where
  "track_length track = track_length_loop track 0"

text \<open>
  \<open>segment_target_length = track_length / num_segments\<close>. In the script
  \<open>num_segments\<close> is the constant 80; it is a parameter here. With fewer than two points
  the length loop never runs, \<open>track_length\<close> is still the Python integer \<open>0\<close> and dividing
  it by \<open>0\<close> raises \<open>ZeroDivisionError\<close>. Otherwise \<open>track_length\<close> is a NumPy float
  (the result of \<open>np.sqrt\<close>), and dividing it by \<open>0\<close> only warns and yields \<open>inf\<close> or
  \<open>nan\<close>: a target that no accumulated length reaches (\<open>Unreachable\<close>).
  \<open>KeyError\<close> is raised by the column lookups of the utility module below.
\<close>

datatype error = ZeroDivisionError | KeyError string

datatype target = Finite real | Unreachable

definition segment_target_length :: "point list \<Rightarrow> int \<Rightarrow> error + target" where
  "segment_target_length track num_segments =
     (if length track < 2 then
        (if num_segments = 0 then Inl ZeroDivisionError else Inr (Finite 0))
      else if num_segments = 0 then Inr Unreachable
      else Inr (Finite (track_length track / real_of_int num_segments)))"

text \<open>The test \<open>current_length >= segment_target_length\<close>.\<close>

fun reached :: "real \<Rightarrow> target \<Rightarrow> bool" where
  "reached l (Finite t) = (t \<le> l)"
| "reached l Unreachable = False"

text \<open>The variables the segmentation loop updates.\<close>

record seg_state =
  current_segment :: "point list"
  current_length :: real
  segments :: "point list list"
  segment_points :: "point list"

definition seg_init :: seg_state where
  "seg_init = \<lparr>current_segment = [], current_length = 0, segments = [], segment_points = []\<rparr>"

text \<open>
  One pass of \<open>for i in range(1, len(track_x))\<close>: the argument list starts at
  \<open>pt1 = track[i-1]\<close>, and \<open>i == len(track_x) - 1\<close> holds exactly when nothing follows
  \<open>pt2\<close>.
\<close>

fun segment_loop :: "target \<Rightarrow> point list \<Rightarrow> seg_state \<Rightarrow> seg_state" where
  "segment_loop t (pt1 # pt2 # ps) st =
     (let segment_length = distance (fst pt1) (snd pt1) (fst pt2) (snd pt2);
          cs = (if current_segment st = [] then [pt1] else current_segment st) @ [pt2];
          cl = current_length st + segment_length
      in if reached cl t \<or> ps = [] then
           segment_loop t (pt2 # ps)
             (if 2 \<le> length cs then
                \<lparr>current_segment = [pt2], current_length = 0,
                 segments = segments st @ [cs],
                 segment_points = segment_points st @ [cs ! (length cs div 2)]\<rparr>
              else
                \<lparr>current_segment = [pt2], current_length = 0,
                 segments = segments st, segment_points = segment_points st\<rparr>)
         else
           segment_loop t (pt2 # ps)
             \<lparr>current_segment = cs, current_length = cl,
              segments = segments st, segment_points = segment_points st\<rparr>)"
| "segment_loop t _ st = st"

text \<open>
  The whole segmentation: the retained segments and their recorded midpoints, or the
  error raised before the loop starts.
\<close>

definition segmentation :: "point list \<Rightarrow> int \<Rightarrow> error + (point list list \<times> point list)" where
  "segmentation track num_segments =
     (case segment_target_length track num_segments of
        Inl e \<Rightarrow> Inl e
      | Inr t \<Rightarrow>
          (let st = segment_loop t track seg_init in Inr (segments st, segment_points st)))"


text \<open>
  The spec's reading of the reconstruction invariant: the first point of the first
  segment, followed by every segment without its first point (the boundary point it
  shares with its predecessor); and the sharing itself.
\<close>

definition reconstruct :: "point list list \<Rightarrow> point list" where
  "reconstruct segs = (case segs of [] \<Rightarrow> [] | s # _ \<Rightarrow> hd s # concat (map tl segs))"

fun linked :: "point list list \<Rightarrow> bool" where
  "linked (a # b # r) = (last a = hd b \<and> linked (b # r))"
| "linked _ = True"

section \<open>Fastest-driver attribution (same script)\<close>

text \<open>
  A row of a driver's telemetry with the columns the script reads, and the lookup
  \<open>session.laps.pick_drivers(driver).pick_fastest().get_telemetry()\<close> as a map from the
  driver's abbreviation: \<open>None\<close> when there is no valid lap.
\<close>

record tel_row =
  X :: real
  Y :: real
  Speed :: real

type_synonym laps = "string \<rightharpoonup> tel_row list"

text \<open>
  \<open>np.argmin\<close>: the index of the first occurrence of the minimum. On an empty array
  it raises; the script only reaches it with at least one telemetry row, and the value
  given for \<open>[]\<close> is never used.
\<close>

fun argmin_from :: "real \<Rightarrow> nat \<Rightarrow> nat \<Rightarrow> real list \<Rightarrow> nat" where
  "argmin_from best bi i [] = bi"
| "argmin_from best bi i (x # xs) =
     (if x < best then argmin_from x i (Suc i) xs else argmin_from best bi (Suc i) xs)"

fun argmin :: "real list \<Rightarrow> nat" where
  "argmin [] = 0"
| "argmin (x # xs) = argmin_from x 0 1 xs"

text \<open>
  The speed of the telemetry row closest to a segment's midpoint (lines 115 to 122);
  only called on telemetry with at least one row.
\<close>

definition closest_speed :: "tel_row list \<Rightarrow> point \<Rightarrow> real" where
  "closest_speed driver_tel mid =
     (let distances = map (\<lambda>r. sqrt ((X r - fst mid)\<^sup>2 + (Y r - snd mid)\<^sup>2)) driver_tel;
          closest_idx = argmin distances
      in Speed (driver_tel ! closest_idx))"

record attribution =
  segment_fastest_driver :: "string option list"
  segment_fastest_speed :: "real list"

text \<open>\<open>[None] * len(segments)\<close> and \<open>[0] * len(segments)\<close>.\<close>

definition attribution_init :: "nat \<Rightarrow> attribution" where
  "attribution_init n =
     \<lparr>segment_fastest_driver = replicate n None, segment_fastest_speed = replicate n 0\<rparr>"

text \<open>
  \<open>for i, segment in enumerate(segments)\<close> for one driver, over the indices still to
  visit. An index outside one of the lists raises \<open>IndexError\<close>, which the \<open>except\<close>
  around the driver's processing catches: the updates made so far stay.
\<close>

fun driver_segments_loop ::
  "string \<Rightarrow> tel_row list \<Rightarrow> point list \<Rightarrow> nat list \<Rightarrow> attribution \<Rightarrow> attribution" where
  "driver_segments_loop driver driver_tel mids [] a = a"
| "driver_segments_loop driver driver_tel mids (i # is) a =
     (if i < length mids \<and> i < length (segment_fastest_speed a)
         \<and> i < length (segment_fastest_driver a) then
        (let speed = closest_speed driver_tel (mids ! i)
         in if speed > segment_fastest_speed a ! i then
              driver_segments_loop driver driver_tel mids is
                \<lparr>segment_fastest_driver = (segment_fastest_driver a)[i := Some driver],
                 segment_fastest_speed = (segment_fastest_speed a)[i := speed]\<rparr>
            else driver_segments_loop driver driver_tel mids is a)
      else a)"

text \<open>
  \<open>for driver in all_drivers\<close>: a driver without a valid lap or with empty telemetry is
  skipped.
\<close>

fun drivers_loop ::
  "string list \<Rightarrow> laps \<Rightarrow> point list list \<Rightarrow> point list \<Rightarrow> attribution \<Rightarrow> attribution" where
  "drivers_loop [] laps segs mids a = a"
| "drivers_loop (driver # ds) laps segs mids a =
     (case laps driver of
        None \<Rightarrow> drivers_loop ds laps segs mids a
      | Some driver_tel \<Rightarrow>
          if driver_tel = [] then drivers_loop ds laps segs mids a
          else drivers_loop ds laps segs mids
                 (driver_segments_loop driver driver_tel mids [0..<length segs] a))"

definition attribute ::
  "string list \<Rightarrow> laps \<Rightarrow> point list list \<Rightarrow> point list \<Rightarrow> attribution" where
  "attribute all_drivers laps segs mids =
     drivers_loop all_drivers laps segs mids (attribution_init (length segs))"

text \<open>
  What one driver contributes at one midpoint, and the successive updates of one
  segment's pair (fastest driver, fastest speed) over the drivers in order.
\<close>

definition driver_speed :: "laps \<Rightarrow> point \<Rightarrow> string \<Rightarrow> real option" where
  "driver_speed laps mid driver =
     (case laps driver of
        None \<Rightarrow> None
      | Some driver_tel \<Rightarrow> if driver_tel = [] then None else Some (closest_speed driver_tel mid))"

fun best_loop :: "laps \<Rightarrow> point \<Rightarrow> string list \<Rightarrow> string option \<times> real \<Rightarrow> string option \<times> real" where
  "best_loop laps mid [] b = b"
| "best_loop laps mid (driver # ds) b =
     (case driver_speed laps mid driver of
        None \<Rightarrow> best_loop laps mid ds b
      | Some speed \<Rightarrow>
          if speed > snd b then best_loop laps mid ds (Some driver, speed)
          else best_loop laps mid ds b)"

section \<open>Utility module (src/f1_insights/utils)\<close>

text \<open>
  A data frame as a map from column names to columns; a cell is \<open>None\<close> when it is
  \<open>NaN\<close>. \<open>Series.min()\<close> and \<open>Series.max()\<close> skip \<open>NaN\<close> cells and are \<open>NaN\<close> when
  nothing is left; a comparison with \<open>NaN\<close> is false.
\<close>

type_synonym series = "real option list"
type_synonym dataframe = "string \<rightharpoonup> series"

definition present :: "series \<Rightarrow> real list" where
  "present col = concat (map (\<lambda>c. case c of None \<Rightarrow> [] | Some v \<Rightarrow> [v]) col)"

definition series_min :: "series \<Rightarrow> real option" where
  "series_min col = (case present col of [] \<Rightarrow> None | v # vs \<Rightarrow> Some (fold min vs v))"

definition series_max :: "series \<Rightarrow> real option" where
  "series_max col = (case present col of [] \<Rightarrow> None | v # vs \<Rightarrow> Some (fold max vs v))"

fun nan_less :: "real option \<Rightarrow> real option \<Rightarrow> bool" where
  "nan_less (Some a) (Some b) = (a < b)"
| "nan_less _ _ = False"

text \<open>\<open>analyze_slipstream(telemetry, min_distance=50.0, min_speed=300.0)\<close>\<close>

definition analyze_slipstream ::
  "dataframe \<Rightarrow> real \<Rightarrow> real \<Rightarrow> error + (bool \<times> real option \<times> real option)" where
  "analyze_slipstream telemetry min_distance min_speed =
     (case telemetry ''DistanceToCarAhead'' of
        None \<Rightarrow> Inl (KeyError ''DistanceToCarAhead'')
      | Some dist_col \<Rightarrow>
          (case telemetry ''Speed'' of
             None \<Rightarrow> Inl (KeyError ''Speed'')
           | Some speed_col \<Rightarrow>
               (let min_dist = series_min dist_col;
                    max_speed = series_max speed_col;
                    has_slipstream =
                      (nan_less min_dist (Some min_distance) \<and> nan_less (Some min_speed) max_speed)
                in Inr (has_slipstream, min_dist, max_speed))))"

definition analyze_slipstream_default ::
  "dataframe \<Rightarrow> error + (bool \<times> real option \<times> real option)" where
  "analyze_slipstream_default telemetry = analyze_slipstream telemetry 50 300"

text \<open>
  \<open>get_driver_info(session, driver_code)\<close>: \<open>session.results\<close> as the list of its rows,
  the returned dict as a map from its keys.
\<close>

record result_row =
  Abbreviation :: string
  FirstName :: string
  LastName :: string
  DriverNumber :: string
  TeamName :: string

definition get_driver_info :: "result_row list \<Rightarrow> string \<Rightarrow> (string \<rightharpoonup> string)" where
  "get_driver_info results driver_code =
     (let default_info =
            [''name'' \<mapsto> driver_code, ''number'' \<mapsto> ''N/A'', ''team'' \<mapsto> ''Unknown''];
          driver_data = filter (\<lambda>r. Abbreviation r = driver_code) results
      in case driver_data of
           [] \<Rightarrow> default_info
         | r # _ \<Rightarrow>
             [''name'' \<mapsto> FirstName r @ '' '' @ LastName r,
              ''number'' \<mapsto> DriverNumber r,
              ''team'' \<mapsto> TeamName r])"

section \<open>Properties of the segmentation loop\<close>

lemma linked_Cons: "R \<noteq> [] \<Longrightarrow> linked (a # R) = (last a = hd (hd R) \<and> linked R)"
  by (cases R) simp_all

lemma segment_loop_step:
  "segment_loop t (pt1 # pt2 # ps) st =
     (let cs = (if current_segment st = [] then [pt1] else current_segment st) @ [pt2];
          cl = current_length st + distance (fst pt1) (snd pt1) (fst pt2) (snd pt2)
      in if reached cl t \<or> ps = [] then
           segment_loop t (pt2 # ps)
             \<lparr>current_segment = [pt2], current_length = 0,
              segments = segments st @ [cs],
              segment_points = segment_points st @ [cs ! (length cs div 2)]\<rparr>
         else
           segment_loop t (pt2 # ps)
             \<lparr>current_segment = cs, current_length = cl,
              segments = segments st, segment_points = segment_points st\<rparr>)"
  by (simp add: Let_def Suc_le_eq)

lemma segment_loop_single: "segment_loop t [p] st = st"
  by simp

lemma segment_loop_struct:
  "ps \<noteq> [] \<Longrightarrow>
   \<exists>R. segments (segment_loop t (p # ps) st) = segments st @ R \<and>
       segment_points (segment_loop t (p # ps) st) =
         segment_points st @ map (\<lambda>s. s ! (length s div 2)) R \<and>
       R \<noteq> [] \<and>
       hd (hd R) = hd (if current_segment st = [] then [p] else current_segment st) \<and>
       concat (map tl R) = tl (if current_segment st = [] then [p] else current_segment st) @ ps \<and>
       (\<forall>s \<in> set R. 2 \<le> length s) \<and> linked R \<and> length R \<le> length ps"
proof (induction ps arbitrary: p st)
  case Nil
  then show ?case by simp
next
  case (Cons q ps)
  let ?c = "if current_segment st = [] then [p] else current_segment st"
  let ?cs = "?c @ [q]"
  let ?cl = "current_length st + distance (fst p) (snd p) (fst q) (snd q)"
  let ?cut = "\<lparr>current_segment = [q], current_length = 0,
              segments = segments st @ [?cs],
              segment_points = segment_points st @ [?cs ! (length ?cs div 2)]\<rparr>"
  let ?go = "\<lparr>current_segment = ?cs, current_length = ?cl,
              segments = segments st, segment_points = segment_points st\<rparr>"
  have c_ne: "?c \<noteq> []" by simp
  show ?case
  proof (cases "ps = []")
    case True
    have eq: "segment_loop t (p # q # ps) st = ?cut"
      using True by (subst segment_loop_step) (simp add: Let_def)
    show ?thesis using True c_ne unfolding eq
      by (intro exI[of _ "[?cs]"]) (auto simp: hd_append Suc_le_eq)
  next
    case False
    show ?thesis
    proof (cases "reached ?cl t")
      case True
      have eq: "segment_loop t (p # q # ps) st = segment_loop t (q # ps) ?cut"
        using True by (subst segment_loop_step) (simp add: Let_def)
      from Cons.IH[OF False, of q ?cut] obtain R where R:
        "segments (segment_loop t (q # ps) ?cut) = (segments st @ [?cs]) @ R"
        "segment_points (segment_loop t (q # ps) ?cut) =
           (segment_points st @ [?cs ! (length ?cs div 2)]) @ map (\<lambda>s. s ! (length s div 2)) R"
        "R \<noteq> []" "hd (hd R) = q" "concat (map tl R) = ps"
        "\<forall>s \<in> set R. 2 \<le> length s" "linked R" "length R \<le> length ps"
        by auto
      show ?thesis
        using R c_ne unfolding eq
        by (intro exI[of _ "?cs # R"]) (auto simp: hd_append linked_Cons Suc_le_eq)
    next
      case nr: False
      have eq: "segment_loop t (p # q # ps) st = segment_loop t (q # ps) ?go"
        using nr False by (subst segment_loop_step) (simp add: Let_def)
      from Cons.IH[OF False, of q ?go] obtain R where R:
        "segments (segment_loop t (q # ps) ?go) = segments st @ R"
        "segment_points (segment_loop t (q # ps) ?go) =
           segment_points st @ map (\<lambda>s. s ! (length s div 2)) R"
        "R \<noteq> []" "hd (hd R) = hd ?cs" "concat (map tl R) = tl ?cs @ ps"
        "\<forall>s \<in> set R. 2 \<le> length s" "linked R" "length R \<le> length ps"
        by auto
      show ?thesis
        using R c_ne unfolding eq
        by (intro exI[of _ R]) (auto simp: hd_append Suc_le_eq)
    qed
  qed
qed



lemma segment_loop_short: "length track < 2 \<Longrightarrow> segment_loop t track st = st"
proof (cases track)
  case Nil
  then show ?thesis by simp
next
  case (Cons p ps)
  assume "length track < 2"
  with Cons have "ps = []" by simp
  with Cons show ?thesis by simp
qed

lemma segmentation_short:
  "length track < 2 \<Longrightarrow>
   segmentation track N = (if N = 0 then Inl ZeroDivisionError else Inr ([], []))"
  by (simp add: segmentation_def segment_target_length_def segment_loop_short seg_init_def)

lemma segment_target_length_long:
  "2 \<le> length track \<Longrightarrow> \<exists>t. segment_target_length track N = Inr t"
  by (simp add: segment_target_length_def)

lemma segmentation_long:
  assumes "2 \<le> length track"
  shows "\<exists>R. segmentation track N = Inr (R, map (\<lambda>s. s ! (length s div 2)) R) \<and>
             R \<noteq> [] \<and> reconstruct R = track \<and> (\<forall>s \<in> set R. 2 \<le> length s) \<and>
             linked R \<and> length R \<le> length track - 1"
proof -
  from assms obtain p ps where track: "track = p # ps" and ps: "ps \<noteq> []"
    by (cases track) (auto simp: Suc_le_eq)
  from segment_target_length_long[OF assms] obtain t where
    t: "segment_target_length track N = Inr t" by blast
  from segment_loop_struct[OF ps, of t p seg_init] obtain R where R:
    "segments (segment_loop t (p # ps) seg_init) = R"
    "segment_points (segment_loop t (p # ps) seg_init) = map (\<lambda>s. s ! (length s div 2)) R"
    "R \<noteq> []" "hd (hd R) = p" "concat (map tl R) = ps"
    "\<forall>s \<in> set R. 2 \<le> length s" "linked R" "length R \<le> length ps"
    by (auto simp: seg_init_def)
  have "reconstruct R = track"
    using R(3,4,5) track by (cases R) (simp_all add: reconstruct_def)
  moreover have "segmentation track N = Inr (R, map (\<lambda>s. s ! (length s div 2)) R)"
    using t R(1,2) track by (simp add: segmentation_def)
  ultimately show ?thesis using R track by auto
qed

lemma segmentation_shape:
  assumes "segmentation track N = Inr (segs, mids)"
  shows "mids = map (\<lambda>s. s ! (length s div 2)) segs \<and> (\<forall>s \<in> set segs. 2 \<le> length s)"
proof (cases "2 \<le> length track")
  case True
  from segmentation_long[OF True, of N] assms show ?thesis by auto
next
  case False
  then have "length track < 2" by simp
  from segmentation_short[OF this, of N] assms show ?thesis
    by (auto split: if_splits)
qed

lemma sqrt_100: "sqrt 100 = 10"
  by (rule real_sqrt_unique) simp_all

lemmas segmentation_eval =
  segmentation_def segment_target_length_def track_length_def distance_def seg_init_def Let_def

text \<open>
  C1. For every polyline of at least 2 points and every positive target count, the
  segmentation returns segments whose concatenation, with each segment's first point
  (shared with its predecessor) dropped once, is the original point sequence, and each
  segment's last point is the next segment's first point.
\<close>

theorem segmentation_reconstructs:
  assumes "2 \<le> length track" and "0 < N"
  shows "\<exists>segs mids. segmentation track N = Inr (segs, mids) \<and>
           reconstruct segs = track \<and> linked segs"
  using segmentation_long[OF assms(1), of N] by blast

theorem segmentation_reconstructs_witness:
  "2 \<le> length [(0,0),(10,0),(20,0),(30,0),(40::real,0::real)] \<and> 0 < (2::int) \<and>
   (\<exists>segs mids. segmentation [(0,0),(10,0),(20,0),(30,0),(40,0)] 2 = Inr (segs, mids) \<and>
      reconstruct segs = [(0,0),(10,0),(20,0),(30,0),(40,0)] \<and> linked segs)"
  using segmentation_reconstructs[of "[(0,0),(10,0),(20,0),(30,0),(40,0)]" 2] by simp

text \<open>
  C2 as stated fails: a repeated final point yields a zero-length segment after the
  target count has been used up, here 2 segments for the target count 1.
\<close>

theorem segment_count_exceeds_target:
  "segmentation [(0,0),(10,0),(10,0)] 1 =
     Inr ([[(0,0),(10,0)], [(10,0),(10,0)]], [(10,0),(10,0)]) \<and>
   \<not> int (length [[(0,0),(10::real,0::real)], [(10,0),(10,0)]]) \<le> 1"
  by (simp add: segmentation_eval sqrt_100)

text \<open>
  C2, amended. For every polyline of at least 2 points and every positive target count,
  the number of retained segments is at most the number of points minus 1. (Every
  iteration of the loop closes at most one segment, whatever the lengths are; the target
  count itself is no bound.)
\<close>

theorem segment_count_bound:
  assumes "2 \<le> length track" and "0 < N"
  shows "\<exists>segs mids. segmentation track N = Inr (segs, mids) \<and>
           length segs \<le> length track - 1"
  using segmentation_long[OF assms(1), of N] by blast

theorem segment_count_bound_witness:
  "2 \<le> length [(0,0),(10,0),(20,0),(30,0),(40::real,0::real)] \<and> 0 < (2::int) \<and>
   (\<exists>segs mids. segmentation [(0,0),(10,0),(20,0),(30,0),(40,0)] 2 = Inr (segs, mids) \<and>
      length segs \<le> length [(0,0),(10,0),(20,0),(30,0),(40::real,0::real)] - 1)"
  using segment_count_bound[of "[(0,0),(10,0),(20,0),(30,0),(40,0)]" 2] by simp

text \<open>
  C3 as stated fails: a single track point raises nothing; the script goes on with an
  empty list of segments.
\<close>

theorem single_point_no_error:
  "segmentation [(0,0)] 80 = Inr ([], [])"
  by (simp add: segmentation_eval)

text \<open>
  C3, amended. With fewer than 2 track points the segmentation produces no segment;
  it raises an error only when the target count is 0 as well (\<open>ZeroDivisionError\<close>,
  from dividing the integer length 0), and otherwise returns the empty list of segments.
  With at least 2 track points and a target count \<open>\<le> 0\<close> it raises no error and
  produces at least one segment.
\<close>

theorem degenerate_input_behaviour:
  "(length track < 2 \<longrightarrow>
      segmentation track N = (if N = 0 then Inl ZeroDivisionError else Inr ([], []))) \<and>
   (2 \<le> length track \<and> N \<le> 0 \<longrightarrow>
      (\<exists>segs mids. segmentation track N = Inr (segs, mids) \<and> segs \<noteq> []))"
proof (intro conjI impI)
  assume "length track < 2"
  then show "segmentation track N = (if N = 0 then Inl ZeroDivisionError else Inr ([], []))"
    by (rule segmentation_short)
next
  assume "2 \<le> length track \<and> N \<le> 0"
  then have "2 \<le> length track" by simp
  from segmentation_long[OF this, of N]
  show "\<exists>segs mids. segmentation track N = Inr (segs, mids) \<and> segs \<noteq> []"
    by blast
qed

theorem degenerate_input_behaviour_witness:
  "length ([] :: point list) < 2 \<and> segmentation [] 80 = Inr ([], []) \<and>
   segmentation [] 0 = Inl ZeroDivisionError \<and>
   2 \<le> length [(0,0),(10::real,0::real)] \<and> (0::int) \<le> 0 \<and>
   (\<exists>segs mids. segmentation [(0,0),(10,0)] 0 = Inr (segs, mids) \<and> segs \<noteq> [])"
  using degenerate_input_behaviour[of "[]" 80] degenerate_input_behaviour[of "[]" 0]
    degenerate_input_behaviour[of "[(0,0),(10,0)]" 0]
  by simp

text \<open>
  C5 as stated fails: the midpoint of a two-point segment is its last point, which is
  also the first point of the next segment.
\<close>

theorem midpoint_shared_with_next_segment:
  "segmentation [(0,0),(10,0),(20,0)] 2 =
     Inr ([[(0,0),(10,0)], [(10,0),(20,0)]], [(10,0),(20,0)]) \<and>
   [(10,0),(20::real,0::real)] ! 0 \<in> set ([[(0,0),(10,0)], [(10,0),(20,0)]] ! 1)"
  by (simp add: segmentation_eval sqrt_100)

text \<open>
  C5, amended. For every retained segment, the recorded midpoint is the point at index
  \<open>len(segment)//2\<close> of that segment's own point list and therefore an element of that
  segment. The index is never 0; for a segment of at least 3 points it is not the last
  index either, so that the midpoint is then at neither of the two boundary positions
  the segment shares with its neighbours; for a segment of exactly 2 points it is the
  segment's last point.
\<close>

theorem midpoint_in_own_segment:
  assumes "segmentation track N = Inr (segs, mids)" and "k < length segs"
  shows "length mids = length segs \<and>
         mids ! k = (segs ! k) ! (length (segs ! k) div 2) \<and>
         mids ! k \<in> set (segs ! k) \<and>
         0 < length (segs ! k) div 2 \<and>
         (3 \<le> length (segs ! k) \<longrightarrow> length (segs ! k) div 2 < length (segs ! k) - 1) \<and>
         (length (segs ! k) = 2 \<longrightarrow> mids ! k = last (segs ! k))"
proof -
  from segmentation_shape[OF assms(1)] have
    mids: "mids = map (\<lambda>s. s ! (length s div 2)) segs" and
    two: "\<forall>s \<in> set segs. 2 \<le> length s"
    by simp_all
  from two assms(2) have len: "2 \<le> length (segs ! k)" by simp
  have mk: "mids ! k = (segs ! k) ! (length (segs ! k) div 2)"
    using mids assms(2) by simp
  have "length (segs ! k) div 2 < length (segs ! k)" using len by simp
  then have "mids ! k \<in> set (segs ! k)" unfolding mk by (rule nth_mem)
  moreover have "0 < length (segs ! k) div 2" using len by simp
  moreover have "3 \<le> length (segs ! k) \<longrightarrow> length (segs ! k) div 2 < length (segs ! k) - 1"
    by auto
  moreover have "length (segs ! k) = 2 \<longrightarrow> mids ! k = last (segs ! k)"
  proof
    assume l2: "length (segs ! k) = 2"
    then have "segs ! k \<noteq> []" by auto
    then have "last (segs ! k) = (segs ! k) ! (length (segs ! k) - 1)"
      by (rule last_conv_nth)
    with l2 mk show "mids ! k = last (segs ! k)" by simp
  qed
  ultimately show ?thesis using mids mk by simp
qed

theorem midpoint_in_own_segment_witness:
  "segmentation [(0,0),(10,0),(20,0),(30,0),(40,0)] 2 =
     Inr ([[(0,0),(10,0),(20,0)], [(20,0),(30,0),(40,0)]], [(10,0),(30,0)]) \<and>
   (0::nat) < length [[(0,0),(10,0),(20::real,0::real)], [(20,0),(30,0),(40,0)]] \<and>
   3 \<le> length ([[(0,0),(10,0),(20::real,0::real)], [(20,0),(30,0),(40,0)]] ! 0) \<and>
   [(10,0),(30::real,0::real)] ! 0 \<in> set ([[(0,0),(10,0),(20,0)], [(20,0),(30,0),(40,0)]] ! 0)"
proof -
  have ev: "segmentation [(0,0),(10,0),(20,0),(30,0),(40,0)] 2 =
     Inr ([[(0,0),(10,0),(20,0)], [(20,0),(30,0),(40,0)]], [(10,0),(30,0)])"
    by (simp add: segmentation_eval sqrt_100)
  from midpoint_in_own_segment[OF ev, of 0] ev show ?thesis by simp
qed

section \<open>Properties of the attribution loops\<close>

lemma driver_segments_loop_length:
  "length (segment_fastest_driver (driver_segments_loop driver tel mids idxs a)) =
     length (segment_fastest_driver a) \<and>
   length (segment_fastest_speed (driver_segments_loop driver tel mids idxs a)) =
     length (segment_fastest_speed a)"
  by (induction idxs arbitrary: a) (simp_all add: Let_def)

lemma driver_segments_loop_nth:
  assumes "distinct idxs"
    and "\<forall>i \<in> set idxs. i < length mids \<and> i < length (segment_fastest_speed a)
           \<and> i < length (segment_fastest_driver a)"
    and "j < length (segment_fastest_speed a)" and "j < length (segment_fastest_driver a)"
  shows "(segment_fastest_driver (driver_segments_loop driver tel mids idxs a) ! j,
          segment_fastest_speed (driver_segments_loop driver tel mids idxs a) ! j) =
         (if j \<in> set idxs \<and> closest_speed tel (mids ! j) > segment_fastest_speed a ! j
          then (Some driver, closest_speed tel (mids ! j))
          else (segment_fastest_driver a ! j, segment_fastest_speed a ! j))"
  using assms
proof (induction idxs arbitrary: a)
  case Nil
  then show ?case by simp
next
  case (Cons i idxs)
  let ?speed = "closest_speed tel (mids ! i)"
  let ?a' = "\<lparr>segment_fastest_driver = (segment_fastest_driver a)[i := Some driver],
              segment_fastest_speed = (segment_fastest_speed a)[i := ?speed]\<rparr>"
  from Cons.prems have inr: "i < length mids" "i < length (segment_fastest_speed a)"
    "i < length (segment_fastest_driver a)" and ni: "i \<notin> set idxs" and d: "distinct idxs"
    by simp_all
  show ?case
  proof (cases "?speed > segment_fastest_speed a ! i")
    case True
    have eq: "driver_segments_loop driver tel mids (i # idxs) a =
              driver_segments_loop driver tel mids idxs ?a'"
      using True inr by (simp add: Let_def)
    have IH: "(segment_fastest_driver (driver_segments_loop driver tel mids idxs ?a') ! j,
          segment_fastest_speed (driver_segments_loop driver tel mids idxs ?a') ! j) =
         (if j \<in> set idxs \<and> closest_speed tel (mids ! j) > segment_fastest_speed ?a' ! j
          then (Some driver, closest_speed tel (mids ! j))
          else (segment_fastest_driver ?a' ! j, segment_fastest_speed ?a' ! j))"
      by (rule Cons.IH[OF d]) (use Cons.prems in simp_all)
    show ?thesis
    proof (cases "j = i")
      case True
      with IH ni inr \<open>?speed > segment_fastest_speed a ! i\<close> show ?thesis
        unfolding eq by simp
    next
      case False
      with IH show ?thesis unfolding eq by simp
    qed
  next
    case False
    have eq: "driver_segments_loop driver tel mids (i # idxs) a =
              driver_segments_loop driver tel mids idxs a"
      using False inr by (simp add: Let_def)
    have IH: "(segment_fastest_driver (driver_segments_loop driver tel mids idxs a) ! j,
          segment_fastest_speed (driver_segments_loop driver tel mids idxs a) ! j) =
         (if j \<in> set idxs \<and> closest_speed tel (mids ! j) > segment_fastest_speed a ! j
          then (Some driver, closest_speed tel (mids ! j))
          else (segment_fastest_driver a ! j, segment_fastest_speed a ! j))"
      by (rule Cons.IH[OF d]) (use Cons.prems in simp_all)
    show ?thesis
    proof (cases "j = i")
      case True
      with IH ni False show ?thesis unfolding eq by simp
    next
      case ne: False
      with IH show ?thesis unfolding eq by simp
    qed
  qed
qed

lemma drivers_loop_length:
  "length (segment_fastest_driver (drivers_loop ds laps segs mids a)) =
     length (segment_fastest_driver a) \<and>
   length (segment_fastest_speed (drivers_loop ds laps segs mids a)) =
     length (segment_fastest_speed a)"
  by (induction ds arbitrary: a)
     (simp_all add: driver_segments_loop_length split: option.split)

lemma drivers_loop_nth:
  assumes "length mids = length segs"
    and "length (segment_fastest_driver a) = length segs"
    and "length (segment_fastest_speed a) = length segs"
    and "j < length segs"
  shows "(segment_fastest_driver (drivers_loop ds laps segs mids a) ! j,
          segment_fastest_speed (drivers_loop ds laps segs mids a) ! j) =
         best_loop laps (mids ! j) ds (segment_fastest_driver a ! j, segment_fastest_speed a ! j)"
  using assms(2,3)
proof (induction ds arbitrary: a)
  case Nil
  show ?case by simp
next
  case (Cons driver ds)
  show ?case
  proof (cases "laps driver")
    case None
    then show ?thesis using Cons by (simp add: driver_speed_def)
  next
    case (Some tel)
    show ?thesis
    proof (cases "tel = []")
      case True
      then show ?thesis using Some Cons by (simp add: driver_speed_def)
    next
      case False
      let ?a' = "driver_segments_loop driver tel mids [0..<length segs] a"
      have len: "length (segment_fastest_driver ?a') = length segs"
        "length (segment_fastest_speed ?a') = length segs"
        using Cons.prems by (simp_all add: driver_segments_loop_length)
      have step: "(segment_fastest_driver ?a' ! j, segment_fastest_speed ?a' ! j) =
         (if closest_speed tel (mids ! j) > segment_fastest_speed a ! j
          then (Some driver, closest_speed tel (mids ! j))
          else (segment_fastest_driver a ! j, segment_fastest_speed a ! j))"
        using driver_segments_loop_nth[of "[0..<length segs]" mids a j driver tel]
          assms(1,4) Cons.prems by simp
      have "(segment_fastest_driver (drivers_loop ds laps segs mids ?a') ! j,
             segment_fastest_speed (drivers_loop ds laps segs mids ?a') ! j) =
            best_loop laps (mids ! j) ds
              (segment_fastest_driver ?a' ! j, segment_fastest_speed ?a' ! j)"
        by (rule Cons.IH[OF len])
      then show ?thesis using Some False step by (simp add: driver_speed_def)
    qed
  qed
qed

lemma attribute_nth:
  assumes "length mids = length segs" and "j < length segs"
  shows "(segment_fastest_driver (attribute all_drivers laps segs mids) ! j,
          segment_fastest_speed (attribute all_drivers laps segs mids) ! j) =
         best_loop laps (mids ! j) all_drivers (None, 0)"
  unfolding attribute_def
  using drivers_loop_nth[OF assms(1) _ _ assms(2), of "attribution_init (length segs)"
          all_drivers laps] assms(2)
  by (simp add: attribution_init_def)

lemma best_loop_append:
  "best_loop laps mid (xs @ ys) b = best_loop laps mid ys (best_loop laps mid xs b)"
  by (induction xs arbitrary: b) (simp_all split: option.split)

lemma best_loop_unchanged:
  "\<forall>d \<in> set ds. \<forall>v. driver_speed laps mid d = Some v \<longrightarrow> v \<le> snd b \<Longrightarrow>
   best_loop laps mid ds b = b"
  by (induction ds arbitrary: b) (auto split: option.split)

lemma best_loop_below:
  "snd b < s \<Longrightarrow> \<forall>d \<in> set ds. \<forall>v. driver_speed laps mid d = Some v \<longrightarrow> v < s \<Longrightarrow>
   snd (best_loop laps mid ds b) < s"
  by (induction ds arbitrary: b) (auto split: option.split)

lemma best_loop_dominates:
  "snd b \<le> snd (best_loop laps mid ds b) \<and>
   (\<forall>d \<in> set ds. \<forall>v. driver_speed laps mid d = Some v \<longrightarrow> v \<le> snd (best_loop laps mid ds b))"
proof (induction ds arbitrary: b)
  case Nil
  show ?case by simp
next
  case (Cons d ds)
  show ?case
  proof (cases "driver_speed laps mid d")
    case None
    then show ?thesis using Cons[of b] by simp
  next
    case (Some v)
    show ?thesis
    proof (cases "v > snd b")
      case True
      then show ?thesis using Some Cons[of "(Some d, v)"] by auto
    next
      case False
      then show ?thesis using Some Cons[of b] by auto
    qed
  qed
qed

lemma best_loop_idem:
  "best_loop laps mid ds (best_loop laps mid ds b) = best_loop laps mid ds b"
  by (rule best_loop_unchanged) (use best_loop_dominates in blast)

lemma drivers_loop_cong:
  "\<forall>d \<in> set ds. laps1 d = laps2 d \<Longrightarrow>
   drivers_loop ds laps1 segs mids a = drivers_loop ds laps2 segs mids a"
  by (induction ds arbitrary: a) (simp_all split: option.split)

lemma attribute_length:
  "length (segment_fastest_driver (attribute all_drivers laps segs mids)) = length segs \<and>
   length (segment_fastest_speed (attribute all_drivers laps segs mids)) = length segs"
  by (simp add: attribute_def drivers_loop_length attribution_init_def)

lemma drivers_loop_rerun:
  assumes "length mids = length segs"
  shows "drivers_loop all_drivers laps segs mids (attribute all_drivers laps segs mids) =
         attribute all_drivers laps segs mids"
proof -
  let ?a = "attribute all_drivers laps segs mids"
  let ?b = "drivers_loop all_drivers laps segs mids ?a"
  have la: "length (segment_fastest_driver ?a) = length segs"
    "length (segment_fastest_speed ?a) = length segs"
    using attribute_length by simp_all
  have lb: "length (segment_fastest_driver ?b) = length segs"
    "length (segment_fastest_speed ?b) = length segs"
    using la by (simp_all add: drivers_loop_length)
  have pt: "(segment_fastest_driver ?b ! j, segment_fastest_speed ?b ! j) =
            (segment_fastest_driver ?a ! j, segment_fastest_speed ?a ! j)"
    if j: "j < length segs" for j
  proof -
    have "(segment_fastest_driver ?b ! j, segment_fastest_speed ?b ! j) =
          best_loop laps (mids ! j) all_drivers
            (segment_fastest_driver ?a ! j, segment_fastest_speed ?a ! j)"
      by (rule drivers_loop_nth[OF assms la j])
    also have "\<dots> = best_loop laps (mids ! j) all_drivers
                      (best_loop laps (mids ! j) all_drivers (None, 0))"
      by (simp only: attribute_nth[OF assms j])
    also have "\<dots> = best_loop laps (mids ! j) all_drivers (None, 0)"
      by (rule best_loop_idem)
    also have "\<dots> = (segment_fastest_driver ?a ! j, segment_fastest_speed ?a ! j)"
      by (simp only: attribute_nth[OF assms j])
    finally show ?thesis .
  qed
  have "segment_fastest_driver ?b = segment_fastest_driver ?a"
    by (rule nth_equalityI) (use la lb pt in auto)
  moreover have "segment_fastest_speed ?b = segment_fastest_speed ?a"
    by (rule nth_equalityI) (use la lb pt in auto)
  ultimately show ?thesis by simp
qed

text \<open>
  C4 as stated fails when the tied maximum is 0: no speed exceeds the initial 0, and the
  segment keeps no driver at all.
\<close>

theorem tie_at_zero_keeps_none:
  "driver_speed [''A'' \<mapsto> [\<lparr>X = 10, Y = 0, Speed = 0\<rparr>], ''B'' \<mapsto> [\<lparr>X = 10, Y = 0, Speed = 0\<rparr>]]
     (10, 0) ''A'' = Some 0 \<and>
   driver_speed [''A'' \<mapsto> [\<lparr>X = 10, Y = 0, Speed = 0\<rparr>], ''B'' \<mapsto> [\<lparr>X = 10, Y = 0, Speed = 0\<rparr>]]
     (10, 0) ''B'' = Some 0 \<and>
   attribute [''A'', ''B'']
     [''A'' \<mapsto> [\<lparr>X = 10, Y = 0, Speed = 0\<rparr>], ''B'' \<mapsto> [\<lparr>X = 10, Y = 0, Speed = 0\<rparr>]]
     [[(0,0),(10,0),(20,0)]] [(10,0)] =
   \<lparr>segment_fastest_driver = [None], segment_fastest_speed = [0]\<rparr>"
  by (simp add: attribute_def attribution_init_def driver_speed_def closest_speed_def)

text \<open>
  C4, amended. For every segment and every fixed driver processing order, if two drivers'
  nearest samples to the segment midpoint have exactly equal speed, that speed is the
  maximum over all drivers and it is strictly positive, then the attribution records
  the first driver in the order that reaches it, with that speed: the update compares
  with strictly-greater.
\<close>

theorem tie_keeps_first_driver:
  assumes "length mids = length segs" and "k < length segs"
    and "i < j" and "j < length all_drivers"
    and "driver_speed laps (mids ! k) (all_drivers ! i) = Some s"
    and "driver_speed laps (mids ! k) (all_drivers ! j) = Some s"
    and "\<forall>d \<in> set all_drivers. \<forall>v. driver_speed laps (mids ! k) d = Some v \<longrightarrow> v \<le> s"
    and "\<forall>m < i. driver_speed laps (mids ! k) (all_drivers ! m) \<noteq> Some s"
    and "0 < s"
  shows "segment_fastest_driver (attribute all_drivers laps segs mids) ! k = Some (all_drivers ! i) \<and>
         segment_fastest_speed (attribute all_drivers laps segs mids) ! k = s"
proof -
  let ?mid = "mids ! k"
  let ?pre = "take i all_drivers"
  let ?post = "drop (Suc i) all_drivers"
  have i: "i < length all_drivers" using assms(3,4) by simp
  have split: "all_drivers = ?pre @ (all_drivers ! i) # ?post"
    by (rule id_take_nth_drop[OF i])
  have pre_lt: "\<forall>d \<in> set ?pre. \<forall>v. driver_speed laps ?mid d = Some v \<longrightarrow> v < s"
  proof (intro ballI allI impI)
    fix d v
    assume d: "d \<in> set ?pre" and v: "driver_speed laps ?mid d = Some v"
    from d obtain m where m: "m < i" "d = all_drivers ! m"
      using i by (auto simp: in_set_conv_nth)
    from d have "d \<in> set all_drivers" by (rule in_set_takeD)
    with assms(7) v have "v \<le> s" by blast
    moreover from assms(8) m v have "v \<noteq> s" by auto
    ultimately show "v < s" by simp
  qed
  have post_le: "\<forall>d \<in> set ?post. \<forall>v. driver_speed laps ?mid d = Some v \<longrightarrow> v \<le> s"
    using assms(7) by (meson in_set_dropD)
  define b where "b = best_loop laps ?mid ?pre (None, 0)"
  have b: "snd b < s"
    unfolding b_def by (rule best_loop_below) (use assms(9) pre_lt in simp_all)
  have "best_loop laps ?mid all_drivers (None, 0) =
        best_loop laps ?mid ((all_drivers ! i) # ?post) b"
    unfolding b_def by (subst split) (simp only: best_loop_append)
  also have "\<dots> = best_loop laps ?mid ?post (Some (all_drivers ! i), s)"
    using assms(5) b by simp
  also have "\<dots> = (Some (all_drivers ! i), s)"
    by (rule best_loop_unchanged) (use post_le in simp)
  finally show ?thesis
    using attribute_nth[OF assms(1,2), of all_drivers laps] by simp
qed

theorem tie_keeps_first_driver_witness:
  "driver_speed [''A'' \<mapsto> [\<lparr>X = 10, Y = 0, Speed = 200\<rparr>], ''B'' \<mapsto> [\<lparr>X = 10, Y = 0, Speed = 200\<rparr>]]
     ([(10, 0)] ! 0) ([''A'', ''B''] ! 0) = Some 200 \<and>
   driver_speed [''A'' \<mapsto> [\<lparr>X = 10, Y = 0, Speed = 200\<rparr>], ''B'' \<mapsto> [\<lparr>X = 10, Y = 0, Speed = 200\<rparr>]]
     ([(10, 0)] ! 0) ([''A'', ''B''] ! 1) = Some 200 \<and>
   segment_fastest_driver (attribute [''A'', ''B'']
     [''A'' \<mapsto> [\<lparr>X = 10, Y = 0, Speed = 200\<rparr>], ''B'' \<mapsto> [\<lparr>X = 10, Y = 0, Speed = 200\<rparr>]]
     [[(0,0),(10,0),(20,0)]] [(10,0)]) ! 0 = Some ''A'' \<and>
   segment_fastest_speed (attribute [''A'', ''B'']
     [''A'' \<mapsto> [\<lparr>X = 10, Y = 0, Speed = 200\<rparr>], ''B'' \<mapsto> [\<lparr>X = 10, Y = 0, Speed = 200\<rparr>]]
     [[(0,0),(10,0),(20,0)]] [(10,0)]) ! 0 = 200"
  using tie_keeps_first_driver[of "[(10,0)]" "[[(0,0),(10,0),(20,0)]]" 0 0 1 "[''A'', ''B'']"
      "[''A'' \<mapsto> [\<lparr>X = 10, Y = 0, Speed = 200\<rparr>], ''B'' \<mapsto> [\<lparr>X = 10, Y = 0, Speed = 200\<rparr>]]" 200]
  by (simp add: driver_speed_def closest_speed_def)

text \<open>
  C6. The spec's example: five collinear points and the target count 2 give the two
  three-point segments with midpoints (10,0) and (30,0); with driver A at speed 200 at
  (10,0) and driver B at speed 250 at (30,0), both 0 at the other track points, segment 1
  goes to A with 200 and segment 2 to B with 250.
\<close>

theorem example_scenario:
  "segmentation [(0,0),(10,0),(20,0),(30,0),(40,0)] 2 =
     Inr ([[(0,0),(10,0),(20,0)], [(20,0),(30,0),(40,0)]], [(10,0),(30,0)]) \<and>
   attribute [''A'', ''B'']
     [''A'' \<mapsto> [\<lparr>X = 0, Y = 0, Speed = 0\<rparr>, \<lparr>X = 10, Y = 0, Speed = 200\<rparr>,
                \<lparr>X = 20, Y = 0, Speed = 0\<rparr>, \<lparr>X = 30, Y = 0, Speed = 0\<rparr>,
                \<lparr>X = 40, Y = 0, Speed = 0\<rparr>],
      ''B'' \<mapsto> [\<lparr>X = 0, Y = 0, Speed = 0\<rparr>, \<lparr>X = 10, Y = 0, Speed = 0\<rparr>,
                \<lparr>X = 20, Y = 0, Speed = 0\<rparr>, \<lparr>X = 30, Y = 0, Speed = 250\<rparr>,
                \<lparr>X = 40, Y = 0, Speed = 0\<rparr>]]
     [[(0,0),(10,0),(20,0)], [(20,0),(30,0),(40,0)]] [(10,0),(30,0)] =
   \<lparr>segment_fastest_driver = [Some ''A'', Some ''B''], segment_fastest_speed = [200, 250]\<rparr>"
proof (rule conjI)
  show "segmentation [(0,0),(10,0),(20,0),(30,0),(40,0)] 2 =
     Inr ([[(0,0),(10,0),(20,0)], [(20,0),(30,0),(40,0)]], [(10,0),(30,0)])"
    by (simp add: segmentation_eval sqrt_100)
next
  show "attribute [''A'', ''B'']
     [''A'' \<mapsto> [\<lparr>X = 0, Y = 0, Speed = 0\<rparr>, \<lparr>X = 10, Y = 0, Speed = 200\<rparr>,
                \<lparr>X = 20, Y = 0, Speed = 0\<rparr>, \<lparr>X = 30, Y = 0, Speed = 0\<rparr>,
                \<lparr>X = 40, Y = 0, Speed = 0\<rparr>],
      ''B'' \<mapsto> [\<lparr>X = 0, Y = 0, Speed = 0\<rparr>, \<lparr>X = 10, Y = 0, Speed = 0\<rparr>,
                \<lparr>X = 20, Y = 0, Speed = 0\<rparr>, \<lparr>X = 30, Y = 0, Speed = 250\<rparr>,
                \<lparr>X = 40, Y = 0, Speed = 0\<rparr>]]
     [[(0,0),(10,0),(20,0)], [(20,0),(30,0),(40,0)]] [(10,0),(30,0)] =
   \<lparr>segment_fastest_driver = [Some ''A'', Some ''B''], segment_fastest_speed = [200, 250]\<rparr>"
    by (simp add: attribute_def attribution_init_def closest_speed_def)
qed

text \<open>
  C7. Every segment starts with fastest speed 0 and no fastest driver, and a segment at
  whose midpoint no driver's nearest sample has a speed above 0 still has no fastest
  driver (and speed 0) after the pass over all drivers.
\<close>

theorem no_speed_above_zero_keeps_none:
  assumes "length mids = length segs" and "k < length segs"
    and "\<forall>d \<in> set all_drivers. \<forall>v. driver_speed laps (mids ! k) d = Some v \<longrightarrow> v \<le> 0"
  shows "segment_fastest_driver (attribution_init (length segs)) ! k = None \<and>
         segment_fastest_speed (attribution_init (length segs)) ! k = 0 \<and>
         segment_fastest_driver (attribute all_drivers laps segs mids) ! k = None \<and>
         segment_fastest_speed (attribute all_drivers laps segs mids) ! k = 0"
proof -
  have "best_loop laps (mids ! k) all_drivers (None, 0) = (None, 0)"
    by (rule best_loop_unchanged) (use assms(3) in simp)
  then show ?thesis
    using attribute_nth[OF assms(1,2), of all_drivers laps] assms(2)
    by (simp add: attribution_init_def)
qed

theorem no_speed_above_zero_keeps_none_witness:
  "length [(10::real, 0::real)] = length [[(0,0),(10,0),(20::real,0::real)]] \<and>
   driver_speed [''A'' \<mapsto> [\<lparr>X = 0, Y = 0, Speed = 0\<rparr>, \<lparr>X = 20, Y = 0, Speed = 0\<rparr>]]
     ([(10, 0)] ! 0) ''A'' = Some 0 \<and>
   driver_speed [''A'' \<mapsto> [\<lparr>X = 0, Y = 0, Speed = 0\<rparr>, \<lparr>X = 20, Y = 0, Speed = 0\<rparr>]]
     ([(10, 0)] ! 0) ''B'' = None \<and>
   segment_fastest_driver (attribute [''A'', ''B'']
      [''A'' \<mapsto> [\<lparr>X = 0, Y = 0, Speed = 0\<rparr>, \<lparr>X = 20, Y = 0, Speed = 0\<rparr>]]
      [[(0,0),(10,0),(20,0)]] [(10,0)]) ! 0 = None \<and>
   segment_fastest_speed (attribute [''A'', ''B'']
      [''A'' \<mapsto> [\<lparr>X = 0, Y = 0, Speed = 0\<rparr>, \<lparr>X = 20, Y = 0, Speed = 0\<rparr>]]
      [[(0,0),(10,0),(20,0)]] [(10,0)]) ! 0 = 0"
  using no_speed_above_zero_keeps_none[of "[(10,0)]" "[[(0,0),(10,0),(20,0)]]" 0 "[''A'', ''B'']"
      "[''A'' \<mapsto> [\<lparr>X = 0, Y = 0, Speed = 0\<rparr>, \<lparr>X = 20, Y = 0, Speed = 0\<rparr>]]"]
  by (simp add: driver_speed_def closest_speed_def)

text \<open>
  C9. The attribution is a function of the driver order, of the observation data of
  the drivers in that order and of the segments: two runs whose data agree on the listed
  drivers yield the same fastest drivers and speeds for every segment, and running the
  driver loop once more over the result of a run changes nothing.
\<close>

theorem attribution_rerun_identical:
  assumes "\<forall>d \<in> set all_drivers. laps1 d = laps2 d" and "length mids = length segs"
  shows "attribute all_drivers laps1 segs mids = attribute all_drivers laps2 segs mids \<and>
         drivers_loop all_drivers laps1 segs mids (attribute all_drivers laps1 segs mids) =
           attribute all_drivers laps1 segs mids"
  using drivers_loop_cong[OF assms(1)] drivers_loop_rerun[OF assms(2)]
  by (simp add: attribute_def)

theorem attribution_rerun_identical_witness:
  "[''A'' \<mapsto> [\<lparr>X = 10, Y = 0, Speed = 200\<rparr>], ''B'' \<mapsto> [\<lparr>X = 10, Y = 0, Speed = 250\<rparr>]] ''A'' =
   [''A'' \<mapsto> [\<lparr>X = 10, Y = 0, Speed = 200\<rparr>], ''B'' \<mapsto> [\<lparr>X = 10, Y = 0, Speed = 250\<rparr>],
    ''C'' \<mapsto> [\<lparr>X = 10, Y = 0, Speed = 300\<rparr>]] ''A'' \<and>
   [''A'' \<mapsto> [\<lparr>X = 10, Y = 0, Speed = 200\<rparr>], ''B'' \<mapsto> [\<lparr>X = 10, Y = 0, Speed = 250\<rparr>]] ''B'' =
   [''A'' \<mapsto> [\<lparr>X = 10, Y = 0, Speed = 200\<rparr>], ''B'' \<mapsto> [\<lparr>X = 10, Y = 0, Speed = 250\<rparr>],
    ''C'' \<mapsto> [\<lparr>X = 10, Y = 0, Speed = 300\<rparr>]] ''B'' \<and>
   length [(10::real, 0::real)] = length [[(0,0),(10,0),(20::real,0::real)]] \<and>
   attribute [''A'', ''B'']
     [''A'' \<mapsto> [\<lparr>X = 10, Y = 0, Speed = 200\<rparr>], ''B'' \<mapsto> [\<lparr>X = 10, Y = 0, Speed = 250\<rparr>]]
     [[(0,0),(10,0),(20,0)]] [(10,0)] =
   attribute [''A'', ''B'']
     [''A'' \<mapsto> [\<lparr>X = 10, Y = 0, Speed = 200\<rparr>], ''B'' \<mapsto> [\<lparr>X = 10, Y = 0, Speed = 250\<rparr>],
      ''C'' \<mapsto> [\<lparr>X = 10, Y = 0, Speed = 300\<rparr>]]
     [[(0,0),(10,0),(20,0)]] [(10,0)] \<and>
   drivers_loop [''A'', ''B'']
     [''A'' \<mapsto> [\<lparr>X = 10, Y = 0, Speed = 200\<rparr>], ''B'' \<mapsto> [\<lparr>X = 10, Y = 0, Speed = 250\<rparr>]]
     [[(0,0),(10,0),(20,0)]] [(10,0)]
     (attribute [''A'', ''B'']
        [''A'' \<mapsto> [\<lparr>X = 10, Y = 0, Speed = 200\<rparr>], ''B'' \<mapsto> [\<lparr>X = 10, Y = 0, Speed = 250\<rparr>]]
        [[(0,0),(10,0),(20,0)]] [(10,0)]) =
   attribute [''A'', ''B'']
     [''A'' \<mapsto> [\<lparr>X = 10, Y = 0, Speed = 200\<rparr>], ''B'' \<mapsto> [\<lparr>X = 10, Y = 0, Speed = 250\<rparr>]]
     [[(0,0),(10,0),(20,0)]] [(10,0)]"
proof -
  let ?l1 = "[''A'' \<mapsto> [\<lparr>X = 10, Y = 0, Speed = 200\<rparr>], ''B'' \<mapsto> [\<lparr>X = 10, Y = 0, Speed = 250\<rparr>]]"
  let ?l2 = "[''A'' \<mapsto> [\<lparr>X = 10, Y = 0, Speed = 200\<rparr>], ''B'' \<mapsto> [\<lparr>X = 10, Y = 0, Speed = 250\<rparr>],
              ''C'' \<mapsto> [\<lparr>X = 10, Y = 0, Speed = 300\<rparr>]]"
  have agree: "\<forall>d \<in> set [''A'', ''B'']. ?l1 d = ?l2 d" by simp
  have len: "length [(10::real, 0::real)] = length [[(0,0),(10,0),(20::real,0::real)]]" by simp
  have a: "?l1 ''A'' = ?l2 ''A''" and b: "?l1 ''B'' = ?l2 ''B''" by simp_all
  from attribution_rerun_identical[OF agree len] a b len show ?thesis by blast
qed

section \<open>Properties of the utility module\<close>

lemma set_present: "set (present col) = {v. Some v \<in> set col}"
  by (induction col) (auto simp: present_def split: option.splits)

lemma series_min_eq:
  "series_min col = (if present col = [] then None else Some (Min (set (present col))))"
  by (cases "present col") (simp_all add: series_min_def flip: Min.set_eq_fold)

lemma series_max_eq:
  "series_max col = (if present col = [] then None else Some (Max (set (present col))))"
  by (cases "present col") (simp_all add: series_max_def flip: Max.set_eq_fold)

lemma present_empty_iff: "present col = [] \<longleftrightarrow> {v. Some v \<in> set col} = {}"
  using set_present[of col] by (metis set_empty)

text \<open>
  C8. On a telemetry table that has the columns \<open>DistanceToCarAhead\<close> and \<open>Speed\<close>,
  \<open>analyze_slipstream\<close> raises nothing and returns the minimum of the first column and
  the maximum of the second (over the cells that are not \<open>NaN\<close>; \<open>NaN\<close> when there is
  none), and its boolean is true exactly when that minimum is strictly below the distance
  threshold and that maximum strictly above the speed threshold; the thresholds default
  to 50 and 300.
\<close>

theorem analyze_slipstream_min_max:
  assumes "telemetry ''DistanceToCarAhead'' = Some dist_col"
    and "telemetry ''Speed'' = Some speed_col"
  shows "\<exists>has_slipstream min_dist max_speed.
           analyze_slipstream telemetry min_distance min_speed =
             Inr (has_slipstream, min_dist, max_speed) \<and>
           min_dist = (if {v. Some v \<in> set dist_col} = {} then None
                       else Some (Min {v. Some v \<in> set dist_col})) \<and>
           max_speed = (if {v. Some v \<in> set speed_col} = {} then None
                        else Some (Max {v. Some v \<in> set speed_col})) \<and>
           (has_slipstream \<longleftrightarrow>
              (\<exists>m M. min_dist = Some m \<and> max_speed = Some M \<and> m < min_distance \<and> min_speed < M)) \<and>
           analyze_slipstream_default telemetry = analyze_slipstream telemetry 50 300"
proof -
  let ?mn = "series_min dist_col" and ?mx = "series_max speed_col"
  let ?has = "nan_less ?mn (Some min_distance) \<and> nan_less (Some min_speed) ?mx"
  have res: "analyze_slipstream telemetry min_distance min_speed = Inr (?has, ?mn, ?mx)"
    using assms by (simp add: analyze_slipstream_def Let_def)
  have mn: "?mn = (if {v. Some v \<in> set dist_col} = {} then None
                   else Some (Min {v. Some v \<in> set dist_col}))"
    by (simp add: series_min_eq present_empty_iff set_present)
  have mx: "?mx = (if {v. Some v \<in> set speed_col} = {} then None
                   else Some (Max {v. Some v \<in> set speed_col}))"
    by (simp add: series_max_eq present_empty_iff set_present)
  have has: "?has \<longleftrightarrow> (\<exists>m M. ?mn = Some m \<and> ?mx = Some M \<and> m < min_distance \<and> min_speed < M)"
    by (cases ?mn; cases ?mx) simp_all
  show ?thesis
    using res mn mx has by (simp add: analyze_slipstream_default_def)
qed

theorem analyze_slipstream_min_max_witness:
  "[''Speed'' \<mapsto> [Some 320, None, Some 310], ''DistanceToCarAhead'' \<mapsto> [None, Some 30, Some 40]]
     ''DistanceToCarAhead'' = Some [None, Some 30, Some (40::real)] \<and>
   [''Speed'' \<mapsto> [Some 320, None, Some 310], ''DistanceToCarAhead'' \<mapsto> [None, Some 30, Some 40]]
     ''Speed'' = Some [Some 320, None, Some (310::real)] \<and>
   (\<exists>has_slipstream min_dist max_speed.
      analyze_slipstream
        [''Speed'' \<mapsto> [Some 320, None, Some 310], ''DistanceToCarAhead'' \<mapsto> [None, Some 30, Some 40]]
        50 300 = Inr (has_slipstream, min_dist, max_speed) \<and>
      (has_slipstream \<longleftrightarrow>
         (\<exists>m M. min_dist = Some m \<and> max_speed = Some M \<and> m < 50 \<and> 300 < M))) \<and>
   analyze_slipstream
     [''Speed'' \<mapsto> [Some 320, None, Some 310], ''DistanceToCarAhead'' \<mapsto> [None, Some 30, Some 40]]
     50 300 = Inr (True, Some 30, Some 320)"
proof -
  let ?tel = "[''Speed'' \<mapsto> [Some 320, None, Some 310],
               ''DistanceToCarAhead'' \<mapsto> [None, Some 30, Some (40::real)]]"
  have d: "?tel ''DistanceToCarAhead'' = Some [None, Some 30, Some 40]" by simp
  have s: "?tel ''Speed'' = Some [Some 320, None, Some 310]" by simp
  have ev: "analyze_slipstream ?tel 50 300 = Inr (True, Some 30, Some 320)"
    by (simp add: analyze_slipstream_def series_min_def series_max_def present_def)
  from analyze_slipstream_min_max[OF d s, of 50 300] obtain h mn mx where
    "analyze_slipstream ?tel 50 300 = Inr (h, mn, mx)"
    "h \<longleftrightarrow> (\<exists>m M. mn = Some m \<and> mx = Some M \<and> m < 50 \<and> 300 < M)"
    by blast
  then show ?thesis using d s ev by blast
qed

text \<open>
  C10. \<open>get_driver_info\<close> always returns a dict with exactly the keys \<open>name\<close>,
  \<open>number\<close> and \<open>team\<close>; when no row of the result table carries the given
  abbreviation it returns the driver code as name, \<open>N/A\<close> as number and \<open>Unknown\<close> as
  team, and raises nothing.
\<close>

theorem get_driver_info_keys_and_default:
  "dom (get_driver_info results driver_code) = {''name'', ''number'', ''team''} \<and>
   ((\<forall>r \<in> set results. Abbreviation r \<noteq> driver_code) \<longrightarrow>
      get_driver_info results driver_code =
        [''name'' \<mapsto> driver_code, ''number'' \<mapsto> ''N/A'', ''team'' \<mapsto> ''Unknown''])"
proof (rule conjI)
  show "dom (get_driver_info results driver_code) = {''name'', ''number'', ''team''}"
    by (cases "filter (\<lambda>r. Abbreviation r = driver_code) results")
       (auto simp: get_driver_info_def)
next
  show "(\<forall>r \<in> set results. Abbreviation r \<noteq> driver_code) \<longrightarrow>
      get_driver_info results driver_code =
        [''name'' \<mapsto> driver_code, ''number'' \<mapsto> ''N/A'', ''team'' \<mapsto> ''Unknown'']"
  proof
    assume "\<forall>r \<in> set results. Abbreviation r \<noteq> driver_code"
    then have "filter (\<lambda>r. Abbreviation r = driver_code) results = []"
      by (simp add: filter_empty_conv)
    then show "get_driver_info results driver_code =
        [''name'' \<mapsto> driver_code, ''number'' \<mapsto> ''N/A'', ''team'' \<mapsto> ''Unknown'']"
      by (simp add: get_driver_info_def)
  qed
qed

theorem get_driver_info_keys_and_default_witness:
  "Abbreviation \<lparr>Abbreviation = ''HAM'', FirstName = ''Lewis'', LastName = ''Hamilton'',
      DriverNumber = ''44'', TeamName = ''Ferrari''\<rparr> \<noteq> ''XXX'' \<and>
   Abbreviation \<lparr>Abbreviation = ''VER'', FirstName = ''Max'', LastName = ''Verstappen'',
      DriverNumber = ''1'', TeamName = ''Red Bull Racing''\<rparr> \<noteq> ''XXX'' \<and>
   get_driver_info
     [\<lparr>Abbreviation = ''HAM'', FirstName = ''Lewis'', LastName = ''Hamilton'',
        DriverNumber = ''44'', TeamName = ''Ferrari''\<rparr>,
      \<lparr>Abbreviation = ''VER'', FirstName = ''Max'', LastName = ''Verstappen'',
        DriverNumber = ''1'', TeamName = ''Red Bull Racing''\<rparr>] ''XXX'' =
     [''name'' \<mapsto> ''XXX'', ''number'' \<mapsto> ''N/A'', ''team'' \<mapsto> ''Unknown''] \<and>
   dom (get_driver_info
     [\<lparr>Abbreviation = ''HAM'', FirstName = ''Lewis'', LastName = ''Hamilton'',
        DriverNumber = ''44'', TeamName = ''Ferrari''\<rparr>,
      \<lparr>Abbreviation = ''VER'', FirstName = ''Max'', LastName = ''Verstappen'',
        DriverNumber = ''1'', TeamName = ''Red Bull Racing''\<rparr>] ''XXX'') =
     {''name'', ''number'', ''team''}"
proof -
  let ?ham = "\<lparr>Abbreviation = ''HAM'', FirstName = ''Lewis'', LastName = ''Hamilton'',
      DriverNumber = ''44'', TeamName = ''Ferrari''\<rparr>"
  let ?ver = "\<lparr>Abbreviation = ''VER'', FirstName = ''Max'', LastName = ''Verstappen'',
      DriverNumber = ''1'', TeamName = ''Red Bull Racing''\<rparr>"
  have h: "Abbreviation ?ham \<noteq> ''XXX''" and v: "Abbreviation ?ver \<noteq> ''XXX''"
    by simp_all
  then have none: "\<forall>r \<in> set [?ham, ?ver]. Abbreviation r \<noteq> ''XXX''" by simp
  from get_driver_info_keys_and_default[of "[?ham, ?ver]" "''XXX''"] none h v
  show ?thesis by blast
qed

end
